theory Spec2Isabelle
  imports Main "HOL-Library.Mapping" "HOL-Library.AList_Mapping"
begin

section \<open>The Turing machine simulator of utm.py\<close>

text \<open>
  The program is one Python file, \<^verbatim>\<open>utm.py\<close>: a class \<^verbatim>\<open>TuringMachine\<close> with the method
  \<^verbatim>\<open>run\<close>, and the two functions \<^verbatim>\<open>parse_tape\<close> and \<^verbatim>\<open>tape_to_string\<close>.

  Python's \<^verbatim>\<open>str\<close> is modelled as \<open>string\<close> (a list of HOL characters), Python's
  unbounded \<^verbatim>\<open>int\<close> as \<open>int\<close>, and a \<^verbatim>\<open>dict\<close> as a \<open>mapping\<close>. A state and a tape symbol
  are strings, as in the source; a character that \<^verbatim>\<open>parse_tape\<close> reads off the input is a
  string of length one. \<^verbatim>\<open>run\<close> changes the dictionary it is given and returns it; the
  model returns the new tape. What \<^verbatim>\<open>run\<close> prints when tracing is returned as a list of
  lines.
\<close>

subsection \<open>Data\<close>

text \<open>The only exception the body of \<^verbatim>\<open>run\<close> can raise: unpacking a transition value that
  is not a triple (\<^verbatim>\<open>next_state, write_symbol, move = self.transitions[key]\<close>).\<close>

datatype error = ValueError

text \<open>The attributes set by \<^verbatim>\<open>__init__\<close>. The values of the transition table are the
  tuples \<^verbatim>\<open>tuple(value)\<close> of the description, of whatever length the description gave them.\<close>

record TuringMachine =
  states :: "string list"
  alphabet :: "string list"
  blank :: string
  transitions :: "(string, string list) mapping"
  start :: string
  halt :: string

type_synonym tape = "(int, string) mapping"

text \<open>The three ways out of the loop of \<^verbatim>\<open>run\<close>: the loop test fails with the state the
  halting state, the loop test fails with another state (so on the step count), or the
  \<^verbatim>\<open>break\<close>. The source returns no such value; the model records, where it leaves the
  loop, which way it took.\<close>

datatype exit = NormalHalt | BudgetExceeded | UndefinedTransition

subsection \<open>Printing\<close>

text \<open>Python's \<^verbatim>\<open>str\<close> of an integer, which the f-string of the trace line applies to
  \<^verbatim>\<open>steps\<close> and \<^verbatim>\<open>head\<close>.\<close>

function str_nat :: "nat \<Rightarrow> string" where
  "str_nat n =
     (if n < 10 then [char_of (48 + n)]
      else str_nat (n div 10) @ [char_of (48 + n mod 10)])"
  by pat_completeness auto
termination
  by (relation "measure (\<lambda>n. n)") auto

definition str_int :: "int \<Rightarrow> string" where
  "str_int i = (if i < 0 then CHR ''-'' # str_nat (nat (- i)) else str_nat (nat i))"

definition trace_line ::
  "int \<Rightarrow> string \<Rightarrow> int \<Rightarrow> string \<Rightarrow> string \<Rightarrow> string \<Rightarrow> string \<Rightarrow> string" where
  "trace_line steps state head symbol write_symbol move next_state =
     ''[step '' @ str_int steps @ ''] state='' @ state @ '' head='' @ str_int head
     @ '' read='' @ symbol @ '' -> write='' @ write_symbol @ '' move='' @ move
     @ '' next='' @ next_state"

subsection \<open>The loop of run\<close>

text \<open>Lines 81 to 85: writing the blank symbol removes the entry (\<^verbatim>\<open>tape.pop(head, None)\<close>),
  any other symbol is stored.\<close>

definition write_cell :: "string \<Rightarrow> tape \<Rightarrow> int \<Rightarrow> string \<Rightarrow> tape" where
  "write_cell b tape head write_symbol =
     (if write_symbol = b then Mapping.delete head tape
      else Mapping.update head write_symbol tape)"

text \<open>Lines 87 to 91: only \<^verbatim>\<open>'L'\<close> and \<^verbatim>\<open>'R'\<close> move the head.\<close>

definition move_head :: "int \<Rightarrow> string \<Rightarrow> int" where
  "move_head head move =
     (if move = ''L'' then head - 1
      else if move = ''R'' then head + 1
      else head)"

text \<open>
  One pass through the body of the \<^verbatim>\<open>while\<close> loop (lines 69 to 94), from the values of
  the local variables. \<open>Inr None\<close> is the \<^verbatim>\<open>break\<close>; \<open>Inr (Some \<dots>)\<close> carries the lines
  printed by this pass and the new values of \<^verbatim>\<open>tape\<close>, \<^verbatim>\<open>head\<close>, \<^verbatim>\<open>state\<close> and
  \<^verbatim>\<open>steps\<close>; \<open>Inl ValueError\<close> is the failed unpacking.
\<close>

definition loop_body ::
  "TuringMachine \<Rightarrow> bool \<Rightarrow> tape \<Rightarrow> int \<Rightarrow> string \<Rightarrow> int
     \<Rightarrow> error + (string list \<times> tape \<times> int \<times> string \<times> int) option" where
  "loop_body M trace tape head state steps =
     (let symbol = Mapping.lookup_default (blank M) tape head;
          key = state @ '':'' @ symbol
      in case Mapping.lookup (transitions M) key of
           None \<Rightarrow> Inr None
         | Some v \<Rightarrow>
            (case v of
               [next_state, write_symbol, move] \<Rightarrow>
                 Inr (Some
                   (if trace
                    then [trace_line steps state head symbol write_symbol move next_state]
                    else [],
                    write_cell (blank M) tape head write_symbol,
                    move_head head move,
                    next_state,
                    steps + 1))
             | _ \<Rightarrow> Inl ValueError))"

text \<open>
  The \<^verbatim>\<open>while\<close> loop from the values of the local variables on: the printed lines, the
  exit taken, and the final \<^verbatim>\<open>tape\<close>, \<^verbatim>\<open>head\<close>, \<^verbatim>\<open>state\<close> and \<^verbatim>\<open>steps\<close>.
\<close>

function run_loop ::
  "TuringMachine \<Rightarrow> int \<Rightarrow> bool \<Rightarrow> tape \<Rightarrow> int \<Rightarrow> string \<Rightarrow> int
     \<Rightarrow> error + (string list \<times> exit \<times> tape \<times> int \<times> string \<times> int)" where
  "run_loop M max_steps trace tape head state steps =
     (if state \<noteq> halt M \<and> steps < max_steps then
        (case loop_body M trace tape head state steps of
           Inl e \<Rightarrow> Inl e
         | Inr None \<Rightarrow> Inr ([], UndefinedTransition, tape, head, state, steps)
         | Inr (Some (out, tape', head', state', steps')) \<Rightarrow>
             (case run_loop M max_steps trace tape' head' state' steps' of
                Inl e \<Rightarrow> Inl e
              | Inr (outs, r) \<Rightarrow> Inr (out @ outs, r)))
      else
        Inr ([], if state = halt M then NormalHalt else BudgetExceeded,
             tape, head, state, steps))"
  by pat_completeness auto
termination
  by (relation "measure (\<lambda>(M, max_steps, trace, tape, head, state, steps).
        nat (max_steps - steps))")
     (auto simp: loop_body_def Let_def split: option.splits list.splits)

text \<open>
  The method \<^verbatim>\<open>run\<close> (lines 51 to 95): the local variables start at \<^verbatim>\<open>head = 0\<close>,
  \<^verbatim>\<open>state = self.start\<close>, \<^verbatim>\<open>steps = 0\<close>. \<open>run_full\<close> keeps everything the loop
  produced; \<open>run\<close> is the value the method returns, \<^verbatim>\<open>(tape, steps, state)\<close>;
  \<open>run_stdout\<close> is what it printed and \<open>run_exit\<close> the exit the loop took.
\<close>

definition run_full ::
  "TuringMachine \<Rightarrow> tape \<Rightarrow> int \<Rightarrow> bool
     \<Rightarrow> error + (string list \<times> exit \<times> tape \<times> int \<times> string \<times> int)" where
  "run_full M tape max_steps trace = run_loop M max_steps trace tape 0 (start M) 0"

definition run ::
  "TuringMachine \<Rightarrow> tape \<Rightarrow> int \<Rightarrow> bool \<Rightarrow> error + (tape \<times> int \<times> string)" where
  "run M tape max_steps trace =
     (case run_full M tape max_steps trace of
        Inl e \<Rightarrow> Inl e
      | Inr (out, ex, tape', head, state, steps) \<Rightarrow> Inr (tape', steps, state))"

definition run_stdout :: "TuringMachine \<Rightarrow> tape \<Rightarrow> int \<Rightarrow> bool \<Rightarrow> error + string list" where
  "run_stdout M tape max_steps trace =
     (case run_full M tape max_steps trace of
        Inl e \<Rightarrow> Inl e
      | Inr (out, ex, tape', head, state, steps) \<Rightarrow> Inr out)"

definition run_exit :: "TuringMachine \<Rightarrow> tape \<Rightarrow> int \<Rightarrow> bool \<Rightarrow> error + exit" where
  "run_exit M tape max_steps trace =
     (case run_full M tape max_steps trace of
        Inl e \<Rightarrow> Inl e
      | Inr (out, ex, tape', head, state, steps) \<Rightarrow> Inr ex)"

text \<open>The default of the parameter \<^verbatim>\<open>max_steps\<close>.\<close>

definition default_max_steps :: int where
  "default_max_steps = 10000"

subsection \<open>Tapes and strings\<close>

text \<open>\<^verbatim>\<open>parse_tape\<close> (lines 98 to 104): the loop over \<^verbatim>\<open>enumerate(input_str)\<close>, from the
  empty dictionary. A character \<^verbatim>\<open>ch\<close> of the input is the string \<open>[ch]\<close>.\<close>

definition parse_tape :: "string \<Rightarrow> string \<Rightarrow> tape" where
  "parse_tape input_str b =
     fold (\<lambda>(i, ch) tape. if [ch] \<noteq> b then Mapping.update (int i) [ch] tape else tape)
       (List.enumerate 0 input_str) Mapping.empty"

text \<open>\<^verbatim>\<open>tape_to_string\<close> (lines 107 to 113): \<^verbatim>\<open>range(min_pos, max_pos + 1)\<close> is
  \<open>[min_pos..max_pos]\<close>, and \<^verbatim>\<open>''.join\<close> is \<open>concat\<close>. A dictionary has finitely many
  keys, so that \<^verbatim>\<open>min\<close> and \<^verbatim>\<open>max\<close> are \<open>Min\<close> and \<open>Max\<close> of the key set.\<close>

definition tape_to_string :: "tape \<Rightarrow> string \<Rightarrow> string" where
  "tape_to_string tape b =
     (if Mapping.is_empty tape then []
      else
        let min_pos = Min (Mapping.keys tape);
            max_pos = Max (Mapping.keys tape)
        in concat (map (\<lambda>i. Mapping.lookup_default b tape i) [min_pos..max_pos]))"

subsection \<open>Properties of machines and tapes\<close>

text \<open>A transition table is well formed when every value is a triple, as the annotation
  \<^verbatim>\<open>Dict[str, Tuple[str, str, str]]\<close> of the attribute says.\<close>

definition well_formed :: "TuringMachine \<Rightarrow> bool" where
  "well_formed M \<longleftrightarrow>
     (\<forall>key \<in> Mapping.keys (transitions M).
        map_option length (Mapping.lookup (transitions M) key) = Some 3)"

text \<open>The representation invariant of a tape: no stored entry holds the blank symbol.\<close>

definition no_blank :: "string \<Rightarrow> tape \<Rightarrow> bool" where
  "no_blank b tape \<longleftrightarrow> (\<forall>p \<in> Mapping.keys tape. Mapping.lookup tape p \<noteq> Some b)"

text \<open>A string with its leading and its trailing occurrences of a character removed. This
  is the wording of the property about strings that contain the blank symbol, not a
  function of the source.\<close>

definition strip_blank :: "char \<Rightarrow> string \<Rightarrow> string" where
  "strip_blank c s = rev (dropWhile (\<lambda>x. x = c) (rev (dropWhile (\<lambda>x. x = c) s)))"

subsection \<open>Example machines\<close>

text \<open>The unary incrementer of the specification's scenario.\<close>

definition incrementer :: TuringMachine where
  "incrementer =
     \<lparr> states = [''add'', ''done''],
       alphabet = [''1'', ''B''],
       blank = ''B'',
       transitions =
         Mapping.update ''add:1'' [''add'', ''1'', ''R'']
           (Mapping.update ''add:B'' [''done'', ''1'', ''S''] Mapping.empty),
       start = ''add'',
       halt = ''done'' \<rparr>"

text \<open>A machine that walks right over ones and has no transition for the blank.\<close>

definition walker :: TuringMachine where
  "walker =
     \<lparr> states = [''go'', ''stop''],
       alphabet = [''1'', ''B''],
       blank = ''B'',
       transitions = Mapping.update ''go:1'' [''go'', ''1'', ''R''] Mapping.empty,
       start = ''go'',
       halt = ''stop'' \<rparr>"

text \<open>A machine whose transitions carry the directions \<^verbatim>\<open>'X'\<close> and \<^verbatim>\<open>''\<close>: it erases
  the one under the head and writes it again.\<close>

definition eraser :: TuringMachine where
  "eraser =
     \<lparr> states = [''a'', ''b'', ''h''],
       alphabet = [''1'', ''B''],
       blank = ''B'',
       transitions =
         Mapping.update ''a:1'' [''b'', ''B'', ''X'']
           (Mapping.update ''b:B'' [''h'', ''1'', []] Mapping.empty),
       start = ''a'',
       halt = ''h'' \<rparr>"

text \<open>A machine whose only table entry is a pair, not a triple.\<close>

definition pair_entry :: TuringMachine where
  "pair_entry =
     \<lparr> states = [''p''],
       alphabet = [''B''],
       blank = ''B'',
       transitions = Mapping.update ''p:B'' [''p'', ''B''] Mapping.empty,
       start = ''p'',
       halt = ''q'' \<rparr>"

section \<open>Properties of the loop\<close>

declare run_loop.simps [simp del]

text \<open>The loop equation, one lemma for each path through the loop.\<close>

lemma run_loop_exit:
  "\<not> (state \<noteq> halt M \<and> steps < max_steps) \<Longrightarrow>
   run_loop M max_steps trace tape head state steps =
     Inr ([], if state = halt M then NormalHalt else BudgetExceeded, tape, head, state, steps)"
  by (subst run_loop.simps) auto

lemma run_loop_break:
  "state \<noteq> halt M \<Longrightarrow> steps < max_steps \<Longrightarrow>
   loop_body M trace tape head state steps = Inr None \<Longrightarrow>
   run_loop M max_steps trace tape head state steps =
     Inr ([], UndefinedTransition, tape, head, state, steps)"
  by (subst run_loop.simps) simp

lemma run_loop_raise:
  "state \<noteq> halt M \<Longrightarrow> steps < max_steps \<Longrightarrow>
   loop_body M trace tape head state steps = Inl e \<Longrightarrow>
   run_loop M max_steps trace tape head state steps = Inl e"
  by (subst run_loop.simps) simp

lemma run_loop_next:
  "state \<noteq> halt M \<Longrightarrow> steps < max_steps \<Longrightarrow>
   loop_body M trace tape head state steps = Inr (Some (out, tape', head', state', steps')) \<Longrightarrow>
   run_loop M max_steps trace tape head state steps =
     (case run_loop M max_steps trace tape' head' state' steps' of
        Inl e \<Rightarrow> Inl e
      | Inr (outs, r) \<Rightarrow> Inr (out @ outs, r))"
  by (subst run_loop.simps) simp

text \<open>What one pass through the body returns, read off the transition table.\<close>

lemma loop_body_None:
  "loop_body M trace tape head state steps = Inr None \<longleftrightarrow>
   Mapping.lookup (transitions M)
     (state @ '':'' @ Mapping.lookup_default (blank M) tape head) = None"
  by (auto simp: loop_body_def Let_def split: option.splits list.splits)

lemma loop_body_Some:
  "loop_body M trace tape head state steps = Inr (Some (out, tape', head', state', steps')) \<longleftrightarrow>
   (\<exists>write_symbol move.
      Mapping.lookup (transitions M)
        (state @ '':'' @ Mapping.lookup_default (blank M) tape head)
        = Some [state', write_symbol, move] \<and>
      out = (if trace
             then [trace_line steps state head (Mapping.lookup_default (blank M) tape head)
                     write_symbol move state']
             else []) \<and>
      tape' = write_cell (blank M) tape head write_symbol \<and>
      head' = move_head head move \<and>
      steps' = steps + 1)"
  by (auto simp: loop_body_def Let_def split: option.splits list.splits)

lemma loop_body_Inl:
  "loop_body M trace tape head state steps = Inl e \<longleftrightarrow>
   (\<exists>v. Mapping.lookup (transitions M)
        (state @ '':'' @ Mapping.lookup_default (blank M) tape head) = Some v \<and> length v \<noteq> 3)"
  by (cases e) (auto simp: loop_body_def Let_def split: option.splits list.splits)

text \<open>Induction along the iterations of the loop, for a fixed machine, budget and trace
  flag: the loop test fails, the body raises, the body breaks, or the body is followed by
  the rest of the loop.\<close>

lemma run_loop_cases_induct [case_names exit raise break iterate]:
  assumes "\<And>tape head state steps.
             \<not> (state \<noteq> halt M \<and> steps < max_steps) \<Longrightarrow> P tape head state steps"
    and "\<And>tape head state steps e.
             state \<noteq> halt M \<Longrightarrow> steps < max_steps \<Longrightarrow>
             loop_body M trace tape head state steps = Inl e \<Longrightarrow> P tape head state steps"
    and "\<And>tape head state steps.
             state \<noteq> halt M \<Longrightarrow> steps < max_steps \<Longrightarrow>
             loop_body M trace tape head state steps = Inr None \<Longrightarrow> P tape head state steps"
    and "\<And>tape head state steps out tape' head' state'.
             state \<noteq> halt M \<Longrightarrow> steps < max_steps \<Longrightarrow>
             loop_body M trace tape head state steps
               = Inr (Some (out, tape', head', state', steps + 1)) \<Longrightarrow>
             P tape' head' state' (steps + 1) \<Longrightarrow> P tape head state steps"
  shows "P tape head state steps"
proof -
  have "M' = M \<Longrightarrow> m' = max_steps \<Longrightarrow> tr' = trace \<Longrightarrow> P tape head state steps"
    for M' m' tr'
  proof (induction M' m' tr' tape head state steps rule: run_loop.induct)
    case (1 M' m' tr' tape head state steps)
    note eqs = "1.prems"
    show ?case
    proof (cases "state \<noteq> halt M \<and> steps < max_steps")
      case False
      then show ?thesis by (rule assms(1))
    next
      case True
      then have test: "state \<noteq> halt M' \<and> steps < m'"
        using eqs by simp
      show ?thesis
      proof (cases "loop_body M trace tape head state steps")
        case (Inl e)
        with True show ?thesis by (auto intro: assms(2))
      next
        case (Inr b)
        show ?thesis
        proof (cases b)
          case None
          with True Inr show ?thesis by (auto intro: assms(3))
        next
          case (Some c)
          obtain o1 t1 h1 q1 s1 where c: "c = (o1, t1, h1, q1, s1)"
            by (cases c) auto
          have body: "loop_body M trace tape head state steps = Inr (Some (o1, t1, h1, q1, s1))"
            using Inr Some c by simp
          then have s1: "s1 = steps + 1"
            by (auto simp: loop_body_Some)
          have body': "loop_body M' tr' tape head state steps = Inr (Some (o1, t1, h1, q1, s1))"
            using body eqs by simp
          have "P t1 h1 q1 s1"
            by (rule "1.IH"[OF test body' refl refl refl refl refl eqs])
          with True body s1 show ?thesis
            by (auto intro: assms(4))
        qed
      qed
    qed
  qed
  then show ?thesis by simp
qed

text \<open>What the loop returns: the step count stays within the budget, and the exit taken
  can be read off the final state and step count.\<close>

lemma run_loop_result:
  "steps \<le> max_steps \<Longrightarrow>
   run_loop M max_steps trace tape head state steps = Inr (out, ex, tape', head', state', steps')
   \<Longrightarrow> steps \<le> steps' \<and> steps' \<le> max_steps \<and>
       (ex = NormalHalt \<longleftrightarrow> state' = halt M) \<and>
       (ex = BudgetExceeded \<longleftrightarrow> state' \<noteq> halt M \<and> steps' = max_steps) \<and>
       (ex = UndefinedTransition \<longleftrightarrow> state' \<noteq> halt M \<and> steps' < max_steps) \<and>
       (ex = UndefinedTransition \<longrightarrow>
          Mapping.lookup (transitions M)
            (state' @ '':'' @ Mapping.lookup_default (blank M) tape' head') = None)"
proof (induction tape head state steps arbitrary: out
         rule: run_loop_cases_induct[where M = M and max_steps = max_steps and trace = trace])
  case (exit tape head state steps)
  then show ?case by (auto simp: run_loop_exit split: if_splits)
next
  case (raise tape head state steps e)
  then show ?case by (simp add: run_loop_raise)
next
  case (break tape head state steps)
  then show ?case by (auto simp: run_loop_break loop_body_None)
next
  case (iterate tape head state steps o1 t1 h1 q1)
  from iterate.prems(2) iterate.hyps obtain outs where
    rec: "run_loop M max_steps trace t1 h1 q1 (steps + 1)
            = Inr (outs, ex, tape', head', state', steps')"
    by (auto simp: run_loop_next split: sum.splits)
  have "steps + 1 \<le> max_steps" using iterate.hyps by simp
  from iterate.IH[OF this rec] show ?case by auto
qed

text \<open>The step count never decreases, whatever the budget.\<close>

lemma run_loop_steps_le:
  "run_loop M max_steps trace tape head state steps = Inr (out, ex, tape', head', state', steps')
   \<Longrightarrow> steps \<le> steps'"
proof (induction tape head state steps arbitrary: out
         rule: run_loop_cases_induct[where M = M and max_steps = max_steps and trace = trace])
  case (exit tape head state steps)
  then show ?case by (auto simp: run_loop_exit split: if_splits)
next
  case (raise tape head state steps e)
  then show ?case by (simp add: run_loop_raise)
next
  case (break tape head state steps)
  then show ?case by (auto simp: run_loop_break)
next
  case (iterate tape head state steps o1 t1 h1 q1)
  from iterate.prems iterate.hyps obtain outs where
    rec: "run_loop M max_steps trace t1 h1 q1 (steps + 1)
            = Inr (outs, ex, tape', head', state', steps')"
    by (auto simp: run_loop_next split: sum.splits)
  from iterate.IH[OF rec] show ?case by auto
qed

text \<open>A run that left the loop through the halting state or the \<^verbatim>\<open>break\<close> does the same
  under a larger budget; a run cut off by the budget \<open>m1\<close> makes at least \<open>m1\<close> steps
  under a larger one.\<close>

lemma run_loop_mono:
  "m1 \<le> m2 \<Longrightarrow>
   run_loop M m1 trace tape head state steps = Inr (out, ex, r) \<Longrightarrow>
   ex \<noteq> BudgetExceeded \<Longrightarrow>
   run_loop M m2 trace tape head state steps = Inr (out, ex, r)"
proof (induction tape head state steps arbitrary: out
         rule: run_loop_cases_induct[where M = M and max_steps = m1 and trace = trace])
  case (exit tape head state steps)
  then show ?case by (auto simp: run_loop_exit split: if_splits)
next
  case (raise tape head state steps e)
  then show ?case by (simp add: run_loop_raise)
next
  case (break tape head state steps)
  then show ?case by (auto simp: run_loop_break)
next
  case (iterate tape head state steps o1 t1 h1 q1)
  from iterate.prems(2) iterate.hyps obtain outs where
    rec: "run_loop M m1 trace t1 h1 q1 (steps + 1) = Inr (outs, ex, r)" and out: "out = o1 @ outs"
    by (auto simp: run_loop_next split: sum.splits)
  have "run_loop M m2 trace t1 h1 q1 (steps + 1) = Inr (outs, ex, r)"
    by (rule iterate.IH[OF iterate.prems(1) rec iterate.prems(3)])
  moreover have "steps < m2" using iterate.hyps iterate.prems(1) by simp
  ultimately show ?case using iterate.hyps out
    by (simp add: run_loop_next)
qed

lemma run_loop_budget_lower:
  "m1 \<le> m2 \<Longrightarrow>
   run_loop M m1 trace tape head state steps = Inr (out, BudgetExceeded, r) \<Longrightarrow>
   run_loop M m2 trace tape head state steps = Inr (out2, ex2, tape2, head2, state2, steps2) \<Longrightarrow>
   m1 \<le> steps2"
proof (induction tape head state steps arbitrary: out out2
         rule: run_loop_cases_induct[where M = M and max_steps = m1 and trace = trace])
  case (exit tape head state steps)
  from exit.prems(2) exit.hyps have "m1 \<le> steps"
    by (auto simp: run_loop_exit split: if_splits)
  moreover have "steps \<le> steps2" using exit.prems(3) by (rule run_loop_steps_le)
  ultimately show ?case by simp
next
  case (raise tape head state steps e)
  then show ?case by (simp add: run_loop_raise)
next
  case (break tape head state steps)
  then show ?case by (auto simp: run_loop_break)
next
  case (iterate tape head state steps o1 t1 h1 q1)
  from iterate.prems(2) iterate.hyps obtain outs where
    rec: "run_loop M m1 trace t1 h1 q1 (steps + 1) = Inr (outs, BudgetExceeded, r)"
    by (auto simp: run_loop_next split: sum.splits)
  have "steps < m2" using iterate.hyps iterate.prems(1) by simp
  with iterate.prems(3) iterate.hyps obtain outs2 where
    rec2: "run_loop M m2 trace t1 h1 q1 (steps + 1) = Inr (outs2, ex2, tape2, head2, state2, steps2)"
    by (auto simp: run_loop_next split: sum.splits)
  show ?case by (rule iterate.IH[OF iterate.prems(1) rec rec2])
qed

text \<open>With a well-formed table the unpacking never fails.\<close>

lemma well_formed_lookup:
  "well_formed M \<Longrightarrow> Mapping.lookup (transitions M) key = Some v \<Longrightarrow> length v = 3"
proof -
  assume wf: "well_formed M" and l: "Mapping.lookup (transitions M) key = Some v"
  from l have "key \<in> Mapping.keys (transitions M)"
    by (simp add: keys_dom_lookup domI)
  with wf have "map_option length (Mapping.lookup (transitions M) key) = Some 3"
    unfolding well_formed_def by blast
  with l show "length v = 3" by simp
qed

lemma run_loop_returns:
  "well_formed M \<Longrightarrow> \<exists>r. run_loop M max_steps trace tape head state steps = Inr r"
proof (induction tape head state steps
         rule: run_loop_cases_induct[where M = M and max_steps = max_steps and trace = trace])
  case (exit tape head state steps)
  then show ?case by (simp add: run_loop_exit)
next
  case (raise tape head state steps e)
  then show ?case by (auto simp: loop_body_Inl dest: well_formed_lookup)
next
  case (break tape head state steps)
  then show ?case by (simp add: run_loop_break)
next
  case (iterate tape head state steps o1 t1 h1 q1)
  then show ?case by (auto simp: run_loop_next)
qed

text \<open>The loop reads only \<^verbatim>\<open>start\<close>, \<^verbatim>\<open>halt\<close>, \<^verbatim>\<open>blank\<close> and \<^verbatim>\<open>transitions\<close>, and the
  trace flag changes what is printed, nothing else.\<close>

lemma run_loop_trace:
  "start M' = start M \<Longrightarrow> halt M' = halt M \<Longrightarrow> blank M' = blank M \<Longrightarrow>
   transitions M' = transitions M \<Longrightarrow>
   map_sum id snd (run_loop M' max_steps trace' tape head state steps)
    = map_sum id snd (run_loop M max_steps trace tape head state steps)"
proof (induction tape head state steps
         rule: run_loop_cases_induct[where M = M and max_steps = max_steps and trace = trace])
  case (exit tape head state steps)
  then show ?case by (simp add: run_loop_exit)
next
  case (raise tape head state steps e)
  moreover from raise have "loop_body M' trace' tape head state steps = Inl e"
    by (simp add: loop_body_Inl)
  ultimately show ?case by (simp add: run_loop_raise)
next
  case (break tape head state steps)
  moreover from break have "loop_body M' trace' tape head state steps = Inr None"
    by (simp add: loop_body_None)
  ultimately show ?case by (simp add: run_loop_break)
next
  case (iterate tape head state steps o1 t1 h1 q1)
  from iterate.hyps(3) iterate.prems obtain o2 where
    "loop_body M' trace' tape head state steps = Inr (Some (o2, t1, h1, q1, steps + 1))"
    unfolding loop_body_Some by auto
  with iterate show ?case
    by (auto simp: run_loop_next split: sum.splits)
qed

text \<open>So a run that raises has an ill-formed table.\<close>

lemma run_loop_Inl:
  "run_loop M max_steps trace tape head state steps = Inl e \<Longrightarrow> \<not> well_formed M"
  using run_loop_returns[of M max_steps trace tape head state steps] by auto

text \<open>The loop does raise on such a table, and a negative budget is not within the
  precondition of \<^verbatim>\<open>run\<close>: the loop is left at once, with a step count that is not the budget.\<close>

lemma pair_entry_raises: "run pair_entry Mapping.empty 5 False = Inl ValueError"
  by code_simp

lemma negative_budget_exit:
  "run_full walker Mapping.empty (- 1) False
     = Inr ([], BudgetExceeded, Mapping.empty, 0, ''go'', 0)"
  by code_simp

text \<open>The value \<^verbatim>\<open>run\<close> returns, in terms of the loop.\<close>

lemma run_Inr_full:
  "run M tape max_steps trace = Inr (t, s, q) \<longleftrightarrow>
   (\<exists>out ex h. run_loop M max_steps trace tape 0 (start M) 0 = Inr (out, ex, t, h, q, s))"
  by (auto simp: run_def run_full_def split: sum.splits)

lemma run_Inl_full:
  "run M tape max_steps trace = Inl e \<longleftrightarrow>
   run_loop M max_steps trace tape 0 (start M) 0 = Inl e"
  by (auto simp: run_def run_full_def split: sum.splits)

lemma run_full_fields:
  "start M' = start M \<Longrightarrow> halt M' = halt M \<Longrightarrow> blank M' = blank M \<Longrightarrow>
   transitions M' = transitions M \<Longrightarrow>
   map_sum id snd (run_full M' tape max_steps trace')
     = map_sum id snd (run_full M tape max_steps trace)"
  unfolding run_full_def by (simp add: run_loop_trace)

lemma run_map_sum: 
  "run M tape max_steps trace
    = map_sum id (\<lambda>(ex, t, h, q, s). (t, s, q)) (map_sum id snd (run_full M tape max_steps trace))"
  by (auto simp: run_def split: sum.splits)

lemma run_exit_map_sum: 
  "run_exit M tape max_steps trace
    = map_sum id fst (map_sum id snd (run_full M tape max_steps trace))"
  by (auto simp: run_exit_def split: sum.splits)

text \<open>Writing a cell keeps the tape free of stored blanks, and so does the loop.\<close>

lemma no_blank_iff: "no_blank b tape \<longleftrightarrow> (\<forall>p. Mapping.lookup tape p \<noteq> Some b)"
  by (auto simp: no_blank_def keys_dom_lookup)

lemma lookup_delete_if:
  "Mapping.lookup (Mapping.delete k m) k' = (if k = k' then None else Mapping.lookup m k')"
  by simp

lemma write_cell_no_blank:
  "no_blank b tape \<Longrightarrow> no_blank b (write_cell b tape p w)"
  by (simp add: no_blank_iff write_cell_def lookup_update' lookup_delete_if)

lemma run_loop_no_blank:
  "no_blank (blank M) tape \<Longrightarrow>
   run_loop M max_steps trace tape head state steps = Inr (out, ex, tape', head', state', steps')
   \<Longrightarrow> no_blank (blank M) tape'"
proof (induction tape head state steps arbitrary: out
         rule: run_loop_cases_induct[where M = M and max_steps = max_steps and trace = trace])
  case (exit tape head state steps)
  then show ?case by (auto simp: run_loop_exit split: if_splits)
next
  case (raise tape head state steps e)
  then show ?case by (simp add: run_loop_raise)
next
  case (break tape head state steps)
  then show ?case by (auto simp: run_loop_break)
next
  case (iterate tape head state steps o1 t1 h1 q1)
  from iterate.prems(2) iterate.hyps obtain outs where
    rec: "run_loop M max_steps trace t1 h1 q1 (steps + 1)
            = Inr (outs, ex, tape', head', state', steps')"
    by (auto simp: run_loop_next split: sum.splits)
  from iterate.hyps(3) iterate.prems(1) have "no_blank (blank M) t1"
    by (auto simp: loop_body_Some intro: write_cell_no_blank)
  from iterate.IH[OF this rec] show ?case .
qed

section \<open>Properties of parse_tape and tape_to_string\<close>

text \<open>The tape built from a string holds, at the positions of the string, the characters that
  are not the blank symbol, and nothing else.\<close>

lemma parse_fold_lookup:
  "Mapping.lookup
     (fold (\<lambda>(i, ch) tape. if [ch] \<noteq> b then Mapping.update (int i) [ch] tape else tape)
        (List.enumerate n s) m) p
   = (if int n \<le> p \<and> p < int n + int (length s) \<and> [s ! (nat p - n)] \<noteq> b
      then Some [s ! (nat p - n)]
      else Mapping.lookup m p)"
proof (induction s arbitrary: n m)
  case Nil
  then show ?case by auto
next
  case (Cons x xs)
  have idx: "(x # xs) ! (nat p - n) = xs ! (nat p - Suc n)" if "int (Suc n) \<le> p"
  proof -
    from that have "nat p - n = Suc (nat p - Suc n)" by linarith
    then show ?thesis by simp
  qed
  show ?case
  proof (cases "int (Suc n) \<le> p")
    case True
    then have "p \<noteq> int n" by simp
    with True show ?thesis
      by (simp add: Cons.IH idx lookup_update')
  next
    case False
    then show ?thesis
      by (auto simp: Cons.IH lookup_update')
  qed
qed

lemma parse_tape_lookup:
  "Mapping.lookup (parse_tape s b) p
   = (if 0 \<le> p \<and> p < int (length s) \<and> [s ! nat p] \<noteq> b then Some [s ! nat p] else None)"
  unfolding parse_tape_def by (simp add: parse_fold_lookup)

lemma parse_tape_keys:
  "Mapping.keys (parse_tape s b) = {p. 0 \<le> p \<and> p < int (length s) \<and> [s ! nat p] \<noteq> b}"
  by (auto simp: keys_dom_lookup parse_tape_lookup dom_def)

lemma parse_tape_keys_finite: "finite (Mapping.keys (parse_tape s b))"
proof (rule finite_subset)
  show "Mapping.keys (parse_tape s b) \<subseteq> {0..<int (length s)}"
    by (auto simp: parse_tape_keys)
qed simp

lemma no_blank_parse_tape: "no_blank b (parse_tape s b)"
  by (simp add: no_blank_def parse_tape_lookup)

lemma parse_tape_lookup_default:
  "0 \<le> p \<Longrightarrow> p < int (length s) \<Longrightarrow> Mapping.lookup_default b (parse_tape s b) p = [s ! nat p]"
  by (simp add: lookup_default_def parse_tape_lookup)

text \<open>A list splits into a prefix and a suffix of elements satisfying \<open>P\<close> and a middle part
  that neither starts nor ends with one; the middle part is what stripping leaves.\<close>

lemma strip_decomp:
  obtains pre mid post where
    "s = pre @ mid @ post" "\<forall>x \<in> set pre. P x" "\<forall>x \<in> set post. P x"
    "mid \<noteq> [] \<Longrightarrow> \<not> P (hd mid) \<and> \<not> P (last mid)"
    "rev (dropWhile P (rev (dropWhile P s))) = mid"
proof
  let ?rest = "dropWhile P s"
  let ?pre = "takeWhile P s"
  let ?mid = "rev (dropWhile P (rev ?rest))"
  let ?post = "rev (takeWhile P (rev ?rest))"
  have rest: "?mid @ ?post = ?rest"
    by (metis rev_append rev_rev_ident takeWhile_dropWhile_id)
  then show "s = ?pre @ ?mid @ ?post" by simp
  show "\<forall>x \<in> set ?pre. P x" by (auto dest: set_takeWhileD)
  show "\<forall>x \<in> set ?post. P x" by (auto dest: set_takeWhileD)
  show "rev (dropWhile P (rev (dropWhile P s))) = ?mid" by simp
  show "\<not> P (hd ?mid) \<and> \<not> P (last ?mid)" if ne: "?mid \<noteq> []"
  proof
    have "?rest \<noteq> []"
    proof
      assume "?rest = []"
      then have "?mid = []" by (auto dest: set_dropWhileD)
      with ne show False by blast
    qed
    then have "\<not> P (hd ?rest)" by (rule hd_dropWhile)
    moreover have "hd ?rest = hd ?mid" using rest ne by (metis hd_append2)
    ultimately show "\<not> P (hd ?mid)" by simp
    from ne have "dropWhile P (rev ?rest) \<noteq> []" by simp
    then have "\<not> P (hd (dropWhile P (rev ?rest)))" by (rule hd_dropWhile)
    then show "\<not> P (last ?mid)" by (simp add: last_rev)
  qed
qed

text \<open>Rendering the tape built from \<open>s\<close> gives \<open>s\<close> without its leading and trailing
  characters equal to the blank symbol: a character absent from the tape is rendered as
  the blank symbol, which it equals.\<close>

lemma tape_to_string_parse_tape:
  "tape_to_string (parse_tape s b) b
   = rev (dropWhile (\<lambda>ch. [ch] = b) (rev (dropWhile (\<lambda>ch. [ch] = b) s)))"
proof -
  let ?P = "\<lambda>ch. [ch] = b"
  let ?t = "parse_tape s b"
  let ?K = "Mapping.keys ?t"
  obtain pre mid post where
    s: "s = pre @ mid @ post" and pre: "\<forall>x \<in> set pre. ?P x" and post: "\<forall>x \<in> set post. ?P x"
    and ends: "mid \<noteq> [] \<Longrightarrow> \<not> ?P (hd mid) \<and> \<not> ?P (last mid)"
    and strip: "rev (dropWhile ?P (rev (dropWhile ?P s))) = mid"
    using strip_decomp[of s ?P] by blast
  show ?thesis
  proof (cases "mid = []")
    case True
    have "[s ! i] = b" if "i < length s" for i
    proof -
      from that have "s ! i \<in> set s" by simp
      with True s pre post show ?thesis by auto
    qed
    then have "?K = {}"
      by (auto simp: parse_tape_keys)
    then have "Mapping.is_empty ?t"
      by (simp only: Mapping.is_empty_def)
    then have "tape_to_string ?t b = []"
      by (simp only: tape_to_string_def if_True)
    also have "[] = rev (dropWhile ?P (rev (dropWhile ?P s)))"
      by (simp only: strip True)
    finally show ?thesis .
  next
    case False
    define a where "a = length pre"
    define z where "z = a + length mid - 1"
    have len: "length s = a + length mid + length post"
      by (simp add: s a_def)
    have mid_pos: "0 < length mid" using False by simp
    have nth_mid: "s ! (a + k) = mid ! k" if "k < length mid" for k
      using that by (simp add: s a_def nth_append)
    have low: "[s ! i] = b" if "i < a" for i
    proof -
      from that have "s ! i = pre ! i" by (simp add: s a_def nth_append)
      moreover from that have "pre ! i \<in> set pre" by (simp add: a_def)
      ultimately show ?thesis using pre by auto
    qed
    have high: "[s ! i] = b" if "z < i" "i < length s" for i
    proof -
      from that mid_pos have i: "a + length mid \<le> i" by (simp add: z_def)
      have "((pre @ mid) @ post) ! (length (pre @ mid) + (i - a - length mid))
          = post ! (i - a - length mid)"
        by (rule nth_append_length_plus)
      moreover have "length (pre @ mid) + (i - a - length mid) = i"
        using i by (simp add: a_def)
      ultimately have "s ! i = post ! (i - a - length mid)"
        by (simp add: s)
      moreover from that i have "post ! (i - a - length mid) \<in> set post"
        using len by simp
      ultimately show ?thesis using post by auto
    qed
    have "s ! a = hd mid"
      using nth_mid[of 0] mid_pos False by (simp add: hd_conv_nth)
    moreover have "a < length s" using len mid_pos by linarith
    ultimately have a_in: "int a \<in> ?K"
      using ends[OF False] by (simp add: parse_tape_keys)
    have "s ! z = last mid"
      using nth_mid[of "length mid - 1"] mid_pos False
      by (simp add: last_conv_nth z_def)
    moreover have "z < length s" using len mid_pos unfolding z_def by linarith
    ultimately have z_in: "int z \<in> ?K"
      using ends[OF False] by (simp add: parse_tape_keys)
    have bounds: "int a \<le> p \<and> p \<le> int z" if "p \<in> ?K" for p
    proof -
      from that have p: "0 \<le> p" "p < int (length s)" "[s ! nat p] \<noteq> b"
        by (simp_all add: parse_tape_keys)
      have "\<not> nat p < a" using low p(3) by blast
      moreover have "\<not> z < nat p"
      proof
        assume "z < nat p"
        moreover have "nat p < length s" using p by simp
        ultimately have "[s ! nat p] = b" by (rule high)
        with p(3) show False by simp
      qed
      ultimately show ?thesis using p(1) by linarith
    qed
    have fin: "finite ?K" by (rule parse_tape_keys_finite)
    have mn: "Min ?K = int a"
    proof (rule Min_eqI)
      show "finite ?K" by (rule fin)
      show "int a \<le> y" if "y \<in> ?K" for y using bounds[OF that] by simp
      show "int a \<in> ?K" by (rule a_in)
    qed
    have mx: "Max ?K = int z"
    proof (rule Max_eqI)
      show "finite ?K" by (rule fin)
      show "y \<le> int z" if "y \<in> ?K" for y using bounds[OF that] by simp
      show "int z \<in> ?K" by (rule z_in)
    qed
    have ne: "\<not> Mapping.is_empty ?t"
      using a_in by (auto simp: Mapping.is_empty_def)
    have zint: "int z = int a + int (length mid) - 1"
      using mid_pos unfolding z_def by linarith
    have "map (Mapping.lookup_default b ?t) [int a..int z] = map (\<lambda>ch. [ch]) mid"
    proof (rule nth_equalityI)
      show l: "length (map (Mapping.lookup_default b ?t) [int a..int z])
          = length (map (\<lambda>ch. [ch]) mid)"
        by (simp add: zint)
      fix k
      assume "k < length (map (Mapping.lookup_default b ?t) [int a..int z])"
      with l have k: "k < length mid" by simp
      then have "int a + int k \<le> int z" by (simp add: zint)
      then have "[int a..int z] ! k = int a + int k" by (rule nth_upto)
      moreover have "Mapping.lookup_default b ?t (int a + int k) = [s ! (a + k)]"
        using k len parse_tape_lookup_default[of "int a + int k" s b]
        by (simp add: nat_add_distrib)
      ultimately show "map (Mapping.lookup_default b ?t) [int a..int z] ! k
          = map (\<lambda>ch. [ch]) mid ! k"
        using k nth_mid[OF k] by (simp add: zint)
    qed
    then have "concat (map (Mapping.lookup_default b ?t) [int a..int z]) = mid"
      by simp
    with ne mn mx strip show ?thesis
      by (simp add: tape_to_string_def)
  qed
qed

section \<open>The claims\<close>

text \<open>
  Claim C1. When the loop reads a pair of state and symbol that has no entry in the
  transition table (the loop test having passed), the body takes the \<^verbatim>\<open>break\<close>: the loop
  returns at once with the tape, the head, the state and the step count it had at that
  moment, having printed nothing. In particular, a machine with no transition for its
  start state and the blank symbol, run on the empty tape, returns the empty tape, 0
  steps and the start state, whatever the budget; and when the start state is not the
  halting state and the budget is positive, the exit taken is the \<^verbatim>\<open>break\<close>.
\<close>

theorem undefined_transition_exits:
  "(state \<noteq> halt M \<and> steps < max_steps \<and>
    Mapping.lookup (transitions M)
      (state @ '':'' @ Mapping.lookup_default (blank M) tape head) = None
    \<longrightarrow> loop_body M trace tape head state steps = Inr None \<and>
        run_loop M max_steps trace tape head state steps
          = Inr ([], UndefinedTransition, tape, head, state, steps))
   \<and> (Mapping.lookup (transitions M) (start M @ '':'' @ blank M) = None
    \<longrightarrow> run M Mapping.empty max_steps trace = Inr (Mapping.empty, 0, start M) \<and>
        (start M \<noteq> halt M \<and> 0 < max_steps
         \<longrightarrow> run_exit M Mapping.empty max_steps trace = Inr UndefinedTransition))"
proof (intro conjI impI)
  assume a: "state \<noteq> halt M \<and> steps < max_steps \<and>
    Mapping.lookup (transitions M)
      (state @ '':'' @ Mapping.lookup_default (blank M) tape head) = None"
  then show body: "loop_body M trace tape head state steps = Inr None"
    by (simp add: loop_body_None)
  with a show "run_loop M max_steps trace tape head state steps
          = Inr ([], UndefinedTransition, tape, head, state, steps)"
    by (simp add: run_loop_break)
next
  assume a: "Mapping.lookup (transitions M) (start M @ '':'' @ blank M) = None"
  then have body: "loop_body M trace Mapping.empty 0 (start M) 0 = Inr None"
    by (simp add: loop_body_None lookup_default_empty)
  show "run M Mapping.empty max_steps trace = Inr (Mapping.empty, 0, start M)"
  proof (cases "start M \<noteq> halt M \<and> 0 < max_steps")
    case True
    with body show ?thesis by (simp add: run_def run_full_def run_loop_break)
  next
    case False
    then show ?thesis by (simp add: run_def run_full_def run_loop_exit)
  qed
  show "run_exit M Mapping.empty max_steps trace = Inr UndefinedTransition"
    if "start M \<noteq> halt M \<and> 0 < max_steps"
    using that body by (simp add: run_exit_def run_full_def run_loop_break)
qed

text \<open>
  The machine \<open>walker\<close> has no transition for \<^verbatim>\<open>go\<close> and the blank: on the tape
  \<^verbatim>\<open>1\<close> with the head at position 1 the loop stops where it is, and on the empty tape
  \<^verbatim>\<open>run\<close> returns 0 steps.
\<close>

theorem undefined_transition_exits_witness:
  "run_loop walker 5 False (parse_tape ''1'' ''B'') 1 ''go'' 1
     = Inr ([], UndefinedTransition, parse_tape ''1'' ''B'', 1, ''go'', 1)
   \<and> run walker Mapping.empty 5 False = Inr (Mapping.empty, 0, ''go'')
   \<and> run_exit walker Mapping.empty 5 False = Inr UndefinedTransition"
proof -
  have h1: "''go'' \<noteq> halt walker \<and> (1::int) < 5 \<and>
      Mapping.lookup (transitions walker)
        (''go'' @ '':'' @ Mapping.lookup_default (blank walker) (parse_tape ''1'' ''B'') 1) = None"
    by code_simp
  have h2: "Mapping.lookup (transitions walker) (start walker @ '':'' @ blank walker) = None"
    by code_simp
  have h3: "start walker \<noteq> halt walker \<and> (0::int) < 5" by code_simp
  have s: "start walker = ''go''" by (simp add: walker_def)
  show ?thesis
    using undefined_transition_exits[where M = walker and state = "''go''" and steps = 1
        and max_steps = 5 and tape = "parse_tape ''1'' ''B''" and head = 1 and trace = False]
      h1 h2 h3 s
    by simp
qed

text \<open>
  Claim C2. For a budget \<open>max_steps \<ge> 0\<close>, a run that returns left the loop through
  exactly one of the three exits, and the returned step count and state tell which:
  the exit is the normal halt exactly when the state is the halting state, the exhausted
  budget exactly when the state is not the halting state and the step count equals the
  budget, and the \<^verbatim>\<open>break\<close> exactly when the state is not the halting state and the
  step count is below the budget; in the last case the table has indeed no entry for the
  final state and the symbol under the head. The only other way out of \<^verbatim>\<open>run\<close> is the
  exception of a table that is not well formed.
\<close>

theorem run_exits_distinguishable:
  "0 \<le> max_steps \<Longrightarrow>
   (case run_full M tape max_steps trace of
      Inl e \<Rightarrow> \<not> well_formed M
    | Inr (out, ex, tape', head', state', steps') \<Rightarrow>
        run M tape max_steps trace = Inr (tape', steps', state') \<and>
        run_exit M tape max_steps trace = Inr ex \<and>
        steps' \<le> max_steps \<and>
        (ex = NormalHalt \<longleftrightarrow> state' = halt M) \<and>
        (ex = BudgetExceeded \<longleftrightarrow> state' \<noteq> halt M \<and> steps' = max_steps) \<and>
        (ex = UndefinedTransition \<longleftrightarrow> state' \<noteq> halt M \<and> steps' < max_steps) \<and>
        (ex = UndefinedTransition \<longrightarrow>
           Mapping.lookup (transitions M)
             (state' @ '':'' @ Mapping.lookup_default (blank M) tape' head') = None))"
proof (cases "run_full M tape max_steps trace")
  case (Inl e)
  then show ?thesis by (auto simp: run_full_def dest: run_loop_Inl)
next
  case (Inr r)
  obtain out ex tape' head' state' steps' where
    r: "r = (out, ex, tape', head', state', steps')"
    by (cases r) auto
  assume "0 \<le> max_steps"
  from run_loop_result[OF this Inr[unfolded r run_full_def]] Inr r
  show ?thesis
    by (simp add: run_def run_exit_def)
qed

text \<open>
  The three exits, each on a concrete run.
\<close>

theorem run_exits_distinguishable_witness:
  "run_full incrementer (parse_tape ''111'' ''B'') 2 False
     = Inr ([], BudgetExceeded, parse_tape ''111'' ''B'', 2, ''add'', 2)
   \<and> run_full incrementer (parse_tape ''111'' ''B'') 4 False
     = Inr ([], NormalHalt, parse_tape ''1111'' ''B'', 3, ''done'', 4)
   \<and> run_full walker (parse_tape ''111'' ''B'') 4 False
     = Inr ([], UndefinedTransition, parse_tape ''111'' ''B'', 3, ''go'', 3)
   \<and> ''add'' \<noteq> halt incrementer \<and> ''done'' = halt incrementer \<and> ''go'' \<noteq> halt walker"
proof -
  have e1: "run_full incrementer (parse_tape ''111'' ''B'') 2 False
     = Inr ([], BudgetExceeded, parse_tape ''111'' ''B'', 2, ''add'', 2)"
    by code_simp
  have e2: "run_full incrementer (parse_tape ''111'' ''B'') 4 False
     = Inr ([], NormalHalt, parse_tape ''1111'' ''B'', 3, ''done'', 4)"
    by code_simp
  have e3: "run_full walker (parse_tape ''111'' ''B'') 4 False
     = Inr ([], UndefinedTransition, parse_tape ''111'' ''B'', 3, ''go'', 3)"
    by code_simp
  have z: "(0::int) \<le> 2" "(0::int) \<le> 4" by simp_all
  show ?thesis
    using run_exits_distinguishable[OF z(1), of incrementer "parse_tape ''111'' ''B''" False]
      run_exits_distinguishable[OF z(2), of incrementer "parse_tape ''111'' ''B''" False]
      run_exits_distinguishable[OF z(2), of walker "parse_tape ''111'' ''B''" False]
    by (simp add: e1 e2 e3)
qed

text \<open>
  Claim C3, as amended. Let \<open>0 \<le> m1 \<le> m2\<close> and let the run with budget \<open>m1\<close> return
  \<open>(t1, s1, q1)\<close>. If that run halted normally or stopped at an undefined transition
  (\<open>q1\<close> is the halting state, or \<open>s1 < m1\<close>), the run with budget \<open>m2\<close> returns the same
  tape, step count and state. Otherwise the run with budget \<open>m1\<close> made exactly \<open>m1\<close>
  steps, and the run with budget \<open>m2\<close> returns a step count between \<open>m1\<close> and \<open>m2\<close>
  (or, on a table that is not well formed, raises).
\<close>

theorem run_budget_monotone:
  "0 \<le> m1 \<Longrightarrow> m1 \<le> m2 \<Longrightarrow> run M tape m1 trace = Inr (t1, s1, q1) \<Longrightarrow>
   (if q1 = halt M \<or> s1 < m1
    then run M tape m2 trace = Inr (t1, s1, q1)
    else s1 = m1 \<and>
         (case run M tape m2 trace of
            Inl e \<Rightarrow> \<not> well_formed M
          | Inr (t2, s2, q2) \<Rightarrow> m1 \<le> s2 \<and> s2 \<le> m2))"
proof -
  assume m1: "0 \<le> m1" and le: "m1 \<le> m2" and r1: "run M tape m1 trace = Inr (t1, s1, q1)"
  from r1 obtain out ex h where
    l1: "run_loop M m1 trace tape 0 (start M) 0 = Inr (out, ex, t1, h, q1, s1)"
    by (auto simp: run_Inr_full)
  note res1 = run_loop_result[OF m1 l1]
  show ?thesis
  proof (cases "q1 = halt M \<or> s1 < m1")
    case True
    with res1 have "ex \<noteq> BudgetExceeded" by auto
    from run_loop_mono[OF le l1 this] True show ?thesis
      by (auto simp: run_Inr_full)
  next
    case False
    with res1 have ex: "ex = BudgetExceeded" and s1: "s1 = m1"
      by (cases ex; auto)+
    have "\<not> well_formed M" if "run M tape m2 trace = Inl e" for e
      using that by (auto simp: run_Inl_full dest: run_loop_Inl)
    moreover have "m1 \<le> s2 \<and> s2 \<le> m2" if "run M tape m2 trace = Inr (t2, s2, q2)" for t2 s2 q2
    proof -
      from that obtain out2 ex2 h2 where
        l2: "run_loop M m2 trace tape 0 (start M) 0 = Inr (out2, ex2, t2, h2, q2, s2)"
        by (auto simp: run_Inr_full)
      have "0 \<le> m2" using m1 le by simp
      from run_loop_result[OF this l2] run_loop_budget_lower[OF le l1[unfolded ex] l2]
      show ?thesis by simp
    qed
    ultimately show ?thesis using False s1
      by (auto split: sum.splits)
  qed
qed

text \<open>
  Claim C3 as stated fails in its last part, which gives the run with the larger budget
  a step count equal to one of the two budgets. The incrementer on \<^verbatim>\<open>111\<close> is cut off by
  the budget 2 (2 steps, state \<^verbatim>\<open>add\<close>, not the halting state), and with the budget 10 it
  halts after 4 steps: neither 2 nor 10.
\<close>

theorem run_budget_monotone_counterexample:
  "run incrementer (parse_tape ''111'' ''B'') 2 False
     = Inr (parse_tape ''111'' ''B'', 2, ''add'')
   \<and> ''add'' \<noteq> halt incrementer
   \<and> run incrementer (parse_tape ''111'' ''B'') 10 False
     = Inr (parse_tape ''1111'' ''B'', 4, ''done'')
   \<and> (4::int) \<notin> {2, 10}"
  by code_simp

text \<open>
  Both cases of the amended claim on \<open>walker\<close> and the tape \<^verbatim>\<open>11\<close>: stopped at an
  undefined transition after 2 steps under the budget 3, it returns the same under the
  budget 5; cut off by the budget 2, it makes between 2 and 5 steps under the budget
  5.
\<close>

theorem run_budget_monotone_witness:
  "run walker (parse_tape ''11'' ''B'') 5 False = Inr (parse_tape ''11'' ''B'', 2, ''go'')
   \<and> run walker (parse_tape ''11'' ''B'') 2 False = Inr (parse_tape ''11'' ''B'', 2, ''go'')
   \<and> \<not> (''go'' = halt walker \<or> (2::int) < 2)
   \<and> (2::int) = 2 \<and> (2::int) \<le> 2 \<and> (2::int) \<le> 5"
proof -
  have r3: "run walker (parse_tape ''11'' ''B'') 3 False = Inr (parse_tape ''11'' ''B'', 2, ''go'')"
    by code_simp
  have r2: "run walker (parse_tape ''11'' ''B'') 2 False = Inr (parse_tape ''11'' ''B'', 2, ''go'')"
    by code_simp
  have h: "\<not> (''go'' = halt walker)" by code_simp
  have a: "(0::int) \<le> 3" "(3::int) \<le> 5" "(0::int) \<le> 2" "(2::int) \<le> 5" by simp_all
  from run_budget_monotone[OF a(1) a(2) r3] h
  have "run walker (parse_tape ''11'' ''B'') 5 False = Inr (parse_tape ''11'' ''B'', 2, ''go'')"
    by simp
  with run_budget_monotone[OF a(3) a(4) r2] r2 h
  show ?thesis by simp
qed

text \<open>
  Claim C4. The unary incrementer, run on the tape built from \<^verbatim>\<open>111\<close> with any budget
  of at least 4 steps (the default is 10000) and with or without tracing, returns after
  exactly 4 steps in the state \<^verbatim>\<open>done\<close>, its halting state, with a tape that renders to
  \<^verbatim>\<open>1111\<close>.
\<close>

theorem incrementer_adds_one:
  "4 \<le> max_steps \<Longrightarrow>
   \<exists>t. run incrementer (parse_tape ''111'' (blank incrementer)) max_steps trace
         = Inr (t, 4, ''done'') \<and>
       tape_to_string t (blank incrementer) = ''1111'' \<and>
       halt incrementer = ''done''"
proof -
  assume le: "4 \<le> max_steps"
  have b: "blank incrementer = ''B''" and s: "start incrementer = ''add''"
    and h: "halt incrementer = ''done''"
    by (simp_all add: incrementer_def)
  have base: "run_loop incrementer 4 False (parse_tape ''111'' ''B'') 0 ''add'' 0
      = Inr ([], NormalHalt, parse_tape ''1111'' ''B'', 3, ''done'', 4)"
    by code_simp
  have "run_loop incrementer max_steps False (parse_tape ''111'' ''B'') 0 ''add'' 0
      = Inr ([], NormalHalt, parse_tape ''1111'' ''B'', 3, ''done'', 4)"
    by (rule run_loop_mono[OF le base]) simp
  moreover have
    "map_sum id snd (run_loop incrementer max_steps trace (parse_tape ''111'' ''B'') 0 ''add'' 0)
     = map_sum id snd (run_loop incrementer max_steps False (parse_tape ''111'' ''B'') 0 ''add'' 0)"
    by (rule run_loop_trace) simp_all
  ultimately have
    "run incrementer (parse_tape ''111'' ''B'') max_steps trace
       = Inr (parse_tape ''1111'' ''B'', 4, ''done'')"
    by (cases "run_loop incrementer max_steps trace (parse_tape ''111'' ''B'') 0 ''add'' 0")
       (auto simp: run_def run_full_def s)
  moreover have "tape_to_string (parse_tape ''1111'' ''B'') ''B'' = ''1111''"
    by code_simp
  ultimately show ?thesis by (simp add: b h)
qed

text \<open>
  The default budget is large enough.
\<close>

theorem incrementer_adds_one_witness:
  "(4::int) \<le> default_max_steps \<and>
   (\<exists>t. run incrementer (parse_tape ''111'' (blank incrementer)) default_max_steps False
         = Inr (t, 4, ''done'') \<and>
       tape_to_string t (blank incrementer) = ''1111'' \<and>
       halt incrementer = ''done'')"
proof -
  have le: "(4::int) \<le> default_max_steps" by (simp add: default_max_steps_def)
  show ?thesis
    using le incrementer_adds_one[OF le, of False] by blast
qed

text \<open>
  Claim C5. When no character of the input string \<open>s\<close> is the blank symbol \<open>b\<close>,
  rendering the tape built from \<open>s\<close> gives \<open>s\<close> back. This holds for the empty string
  too, and for a blank symbol of any length (one that is not a single character equals
  no character of \<open>s\<close>).
\<close>

theorem parse_render_roundtrip:
  "\<forall>ch \<in> set s. [ch] \<noteq> b \<Longrightarrow> tape_to_string (parse_tape s b) b = s"
proof -
  assume "\<forall>ch \<in> set s. [ch] \<noteq> b"
  then have "dropWhile (\<lambda>ch. [ch] = b) s = s" "dropWhile (\<lambda>ch. [ch] = b) (rev s) = rev s"
    by (auto simp: dropWhile_eq_self_iff hd_in_set hd_rev last_in_set)
  then show ?thesis
    by (simp add: tape_to_string_parse_tape)
qed

text \<open>
  Two non-empty strings, with a blank symbol of one and of two characters.
\<close>

theorem parse_render_roundtrip_witness:
  "''111'' \<noteq> [] \<and> tape_to_string (parse_tape ''111'' ''B'') ''B'' = ''111''
   \<and> tape_to_string (parse_tape ''01'' ''BB'') ''BB'' = ''01''"
proof -
  have a: "\<forall>ch \<in> set ''111''. [ch] \<noteq> ''B''" "\<forall>ch \<in> set ''01''. [ch] \<noteq> ''BB''"
    by simp_all
  show ?thesis
    using parse_render_roundtrip[OF a(1)] parse_render_roundtrip[OF a(2)] by simp
qed

text \<open>
  Claim C6. No stored entry of a tape holds the blank symbol: \<^verbatim>\<open>parse_tape\<close> builds such
  a tape; writing the blank symbol at a position removes the entry there, so that the
  position is no longer a key and reads as the blank symbol; writing any other symbol
  stores it; a write, and so one pass through the loop body, keeps a tape free of stored
  blanks; and the tape \<^verbatim>\<open>run\<close> returns from such a tape is free of them.
\<close>

theorem tape_never_stores_blank:
  "no_blank b (parse_tape s b) \<and>
   (Mapping.lookup (write_cell b tape p b) p = None \<and>
    p \<notin> Mapping.keys (write_cell b tape p b) \<and>
    Mapping.lookup_default b (write_cell b tape p b) p = b) \<and>
   (w \<noteq> b \<longrightarrow> Mapping.lookup (write_cell b tape p w) p = Some w) \<and>
   (no_blank b tape \<longrightarrow> no_blank b (write_cell b tape p w)) \<and>
   (no_blank (blank M) tape \<longrightarrow>
      (\<forall>out tape' head' state' steps'.
         loop_body M trace tape head state steps = Inr (Some (out, tape', head', state', steps'))
         \<longrightarrow> no_blank (blank M) tape')) \<and>
   (no_blank (blank M) tape \<longrightarrow>
      (\<forall>tape' steps' state'.
         run M tape max_steps trace = Inr (tape', steps', state')
         \<longrightarrow> no_blank (blank M) tape'))"
proof (intro conjI impI allI)
  show "no_blank b (parse_tape s b)" by (rule no_blank_parse_tape)
  show "Mapping.lookup (write_cell b tape p b) p = None"
    by (simp add: write_cell_def)
  show "p \<notin> Mapping.keys (write_cell b tape p b)"
    by (simp add: write_cell_def)
  show "Mapping.lookup_default b (write_cell b tape p b) p = b"
    by (simp add: write_cell_def lookup_default_def)
  show "Mapping.lookup (write_cell b tape p w) p = Some w" if "w \<noteq> b"
    using that by (simp add: write_cell_def)
  show "no_blank b (write_cell b tape p w)" if "no_blank b tape"
    using that by (rule write_cell_no_blank)
  show "no_blank (blank M) tape'"
    if "no_blank (blank M) tape"
      "loop_body M trace tape head state steps = Inr (Some (out, tape', head', state', steps'))"
    for out tape' head' state' steps'
    using that by (auto simp: loop_body_Some intro: write_cell_no_blank)
  show "no_blank (blank M) tape'"
    if "no_blank (blank M) tape" "run M tape max_steps trace = Inr (tape', steps', state')"
    for tape' steps' state'
    using that by (auto simp: run_Inr_full dest: run_loop_no_blank)
qed

text \<open>
  The machine \<open>eraser\<close> on the tape \<^verbatim>\<open>1B1\<close>: it erases the first cell and writes it
  again.
\<close>

theorem tape_never_stores_blank_witness:
  "no_blank ''B'' (parse_tape ''1B1'' ''B'') \<and>
   Mapping.lookup (write_cell ''B'' (parse_tape ''1B1'' ''B'') 1 ''B'') 1 = None \<and>
   Mapping.lookup (write_cell ''B'' (parse_tape ''1B1'' ''B'') 1 ''0'') 1 = Some ''0'' \<and>
   run eraser (parse_tape ''1B1'' ''B'') 10 False
     = Inr (Mapping.update 0 ''1'' (Mapping.update 2 ''1'' Mapping.empty), 2, ''h'') \<and>
   no_blank (blank eraser) (Mapping.update 0 ''1'' (Mapping.update 2 ''1'' Mapping.empty))"
proof -
  note t = tape_never_stores_blank[where b = "''B''" and s = "''1B1''"
      and tape = "parse_tape ''1B1'' ''B''" and p = 1 and w = "''0''" and M = eraser
      and max_steps = 10 and trace = False]
  have w: "''0'' \<noteq> ''B''" by simp
  have nb: "no_blank (blank eraser) (parse_tape ''1B1'' ''B'')" by code_simp
  have r: "run eraser (parse_tape ''1B1'' ''B'') 10 False
     = Inr (Mapping.update 0 ''1'' (Mapping.update 2 ''1'' Mapping.empty), 2, ''h'')"
    by code_simp
  from t have c1: "no_blank ''B'' (parse_tape ''1B1'' ''B'')"
    by (rule conjunct1)
  from t have c2: "Mapping.lookup (write_cell ''B'' (parse_tape ''1B1'' ''B'') 1 ''B'') 1 = None"
    by blast
  from t w have c3:
    "Mapping.lookup (write_cell ''B'' (parse_tape ''1B1'' ''B'') 1 ''0'') 1 = Some ''0''"
    by blast
  from t nb r have c5:
    "no_blank (blank eraser) (Mapping.update 0 ''1'' (Mapping.update 2 ''1'' Mapping.empty))"
    by blast
  from c1 c2 c3 r c5 show ?thesis
    by (intro conjI)
qed

text \<open>
  Claim C7. \<^verbatim>\<open>run\<close> is deterministic: its result, and the exit it takes, are determined
  by the attributes \<^verbatim>\<open>start\<close>, \<^verbatim>\<open>halt\<close>, \<^verbatim>\<open>blank\<close> and \<^verbatim>\<open>transitions\<close> of the machine,
  the initial tape and the budget. Two invocations that agree on these return equal
  tapes, step counts and states (or raise alike), even when one traces and the other
  does not.
\<close>

theorem run_deterministic:
  "start M' = start M \<Longrightarrow> halt M' = halt M \<Longrightarrow> blank M' = blank M \<Longrightarrow>
   transitions M' = transitions M \<Longrightarrow> tape' = tape \<Longrightarrow> max_steps' = max_steps \<Longrightarrow>
   run M' tape' max_steps' trace' = run M tape max_steps trace \<and>
   run_exit M' tape' max_steps' trace' = run_exit M tape max_steps trace"
proof -
  assume "start M' = start M" "halt M' = halt M" "blank M' = blank M"
    "transitions M' = transitions M"
  then have "map_sum id snd (run_full M' tape max_steps trace')
     = map_sum id snd (run_full M tape max_steps trace)"
    by (rule run_full_fields)
  moreover assume "tape' = tape" "max_steps' = max_steps"
  ultimately show ?thesis
    unfolding run_map_sum run_exit_map_sum by simp
qed

text \<open>
  The incrementer with its lists of states and symbols emptied and with tracing on
  returns what the incrementer returns.
\<close>

theorem run_deterministic_witness:
  "run (incrementer\<lparr>states := [], alphabet := []\<rparr>) (parse_tape ''111'' ''B'') 10 True
     = run incrementer (parse_tape ''111'' ''B'') 10 False
   \<and> run incrementer (parse_tape ''111'' ''B'') 10 False
     = Inr (parse_tape ''1111'' ''B'', 4, ''done'')"
proof -
  have "run incrementer (parse_tape ''111'' ''B'') 10 False
     = Inr (parse_tape ''1111'' ''B'', 4, ''done'')"
    by code_simp
  then show ?thesis
    using run_deterministic[where M' = "incrementer\<lparr>states := [], alphabet := []\<rparr>"
        and M = incrementer and tape' = "parse_tape ''111'' ''B''"
        and tape = "parse_tape ''111'' ''B''" and max_steps' = 10 and max_steps = 10
        and trace' = True and trace = False]
    by simp
qed

text \<open>
  Claim C8. With a well-formed transition table \<^verbatim>\<open>run\<close> raises nothing: for every
  machine, tape and budget (the non-negative budgets of the precondition among them) it
  returns a tape, a step count and a state, through one of the three exits. Reading the
  tape cannot fail: \<open>Mapping.lookup_default\<close> gives the blank symbol at an absent
  position.
\<close>

theorem run_never_raises:
  "well_formed M \<Longrightarrow>
   \<exists>tape' steps' state' ex.
     run M tape max_steps trace = Inr (tape', steps', state') \<and>
     run_exit M tape max_steps trace = Inr ex"
proof -
  assume "well_formed M"
  then obtain r where "run_full M tape max_steps trace = Inr r"
    unfolding run_full_def using run_loop_returns by blast
  then show ?thesis
    by (cases r) (auto simp: run_def run_exit_def)
qed

text \<open>
  The incrementer is well formed.
\<close>

theorem run_never_raises_witness:
  "(0::int) \<le> 10000 \<and> well_formed incrementer \<and>
   (\<exists>tape' steps' state' ex.
     run incrementer (parse_tape ''111'' ''B'') 10000 True = Inr (tape', steps', state') \<and>
     run_exit incrementer (parse_tape ''111'' ''B'') 10000 True = Inr ex)"
proof -
  have z: "(0::int) \<le> 10000" by simp
  have wf: "well_formed incrementer" by code_simp
  show ?thesis
    using z wf run_never_raises[OF wf, of "parse_tape ''111'' ''B''" 10000 True] by simp
qed

text \<open>
  Claim C9. \<^verbatim>\<open>run\<close> applies a transition whatever its direction field. When the table
  entry for the state and the symbol under the head is the triple of a next state, a
  symbol to write and a direction, one pass through the loop body prints the trace line
  if tracing, writes the symbol at the head (removing the entry when it is the blank
  symbol), sets the state and adds one to the step count; the new head is the old one
  when the direction is neither \<^verbatim>\<open>'L'\<close> nor \<^verbatim>\<open>'R'\<close> (\<^verbatim>\<open>'S'\<close>, \<^verbatim>\<open>'X'\<close> and the empty
  string included), one less exactly when it is \<^verbatim>\<open>'L'\<close> and one more exactly when it is
  \<^verbatim>\<open>'R'\<close>. When the loop test passes, the loop goes on from exactly these values, and so
  does \<^verbatim>\<open>run\<close> from its initial values: no direction is rejected.
\<close>

theorem direction_moves_head:
  "Mapping.lookup (transitions M)
     (state @ '':'' @ Mapping.lookup_default (blank M) tape head)
     = Some [next_state, write_symbol, move] \<Longrightarrow>
   loop_body M trace tape head state steps
     = Inr (Some
         (if trace
          then [trace_line steps state head (Mapping.lookup_default (blank M) tape head)
                  write_symbol move next_state]
          else [],
          if write_symbol = blank M then Mapping.delete head tape
          else Mapping.update head write_symbol tape,
          if move = ''L'' then head - 1 else if move = ''R'' then head + 1 else head,
          next_state,
          steps + 1)) \<and>
   (move \<noteq> ''L'' \<and> move \<noteq> ''R'' \<longrightarrow>
      (if move = ''L'' then head - 1 else if move = ''R'' then head + 1 else head) = head) \<and>
   ((if move = ''L'' then head - 1 else if move = ''R'' then head + 1 else head) = head - 1
      \<longleftrightarrow> move = ''L'') \<and>
   ((if move = ''L'' then head - 1 else if move = ''R'' then head + 1 else head) = head + 1
      \<longleftrightarrow> move = ''R'') \<and>
   (state \<noteq> halt M \<and> steps < max_steps \<longrightarrow>
      run_loop M max_steps trace tape head state steps
        = (case run_loop M max_steps trace
                  (if write_symbol = blank M then Mapping.delete head tape
                   else Mapping.update head write_symbol tape)
                  (if move = ''L'' then head - 1 else if move = ''R'' then head + 1 else head)
                  next_state (steps + 1) of
             Inl e \<Rightarrow> Inl e
           | Inr (outs, r) \<Rightarrow>
               Inr ((if trace
                     then [trace_line steps state head
                             (Mapping.lookup_default (blank M) tape head)
                             write_symbol move next_state]
                     else []) @ outs, r))) \<and>
   (start M \<noteq> halt M \<and> 0 < max_steps \<and> state = start M \<and> head = 0 \<and> steps = 0 \<longrightarrow>
      run_full M tape max_steps trace
        = (case run_loop M max_steps trace
                  (if write_symbol = blank M then Mapping.delete 0 tape
                   else Mapping.update 0 write_symbol tape)
                  (if move = ''L'' then - 1 else if move = ''R'' then 1 else 0)
                  next_state 1 of
             Inl e \<Rightarrow> Inl e
           | Inr (outs, r) \<Rightarrow>
               Inr ((if trace
                     then [trace_line 0 (start M) 0 (Mapping.lookup_default (blank M) tape 0)
                             write_symbol move next_state]
                     else []) @ outs, r)))"
proof -
  assume l: "Mapping.lookup (transitions M)
     (state @ '':'' @ Mapping.lookup_default (blank M) tape head)
     = Some [next_state, write_symbol, move]"
  let ?out = "if trace
          then [trace_line steps state head (Mapping.lookup_default (blank M) tape head)
                  write_symbol move next_state]
          else []"
  let ?tape = "if write_symbol = blank M then Mapping.delete head tape
          else Mapping.update head write_symbol tape"
  let ?head = "if move = ''L'' then head - 1 else if move = ''R'' then head + 1 else head"
  have body: "loop_body M trace tape head state steps
     = Inr (Some (?out, ?tape, ?head, next_state, steps + 1))"
    using l by (simp add: loop_body_def write_cell_def move_head_def)
  have loop: "run_loop M max_steps trace tape head state steps
        = (case run_loop M max_steps trace ?tape ?head next_state (steps + 1) of
             Inl e \<Rightarrow> Inl e
           | Inr (outs, r) \<Rightarrow> Inr (?out @ outs, r))"
    if "state \<noteq> halt M \<and> steps < max_steps"
  proof -
    from that have "state \<noteq> halt M" and "steps < max_steps" by simp_all
    then show ?thesis using body by (rule run_loop_next)
  qed
  have full: "run_full M tape max_steps trace
        = (case run_loop M max_steps trace
                  (if write_symbol = blank M then Mapping.delete 0 tape
                   else Mapping.update 0 write_symbol tape)
                  (if move = ''L'' then - 1 else if move = ''R'' then 1 else 0)
                  next_state 1 of
             Inl e \<Rightarrow> Inl e
           | Inr (outs, r) \<Rightarrow>
               Inr ((if trace
                     then [trace_line 0 (start M) 0 (Mapping.lookup_default (blank M) tape 0)
                             write_symbol move next_state]
                     else []) @ outs, r))"
    if a: "start M \<noteq> halt M \<and> 0 < max_steps \<and> state = start M \<and> head = 0 \<and> steps = 0"
  proof -
    from a have st: "state = start M" and hd: "head = 0" and sp: "steps = 0"
      and t: "state \<noteq> halt M \<and> steps < max_steps"
      by simp_all
    show ?thesis
      using loop[OF t] unfolding st hd sp run_full_def by simp
  qed
  have stay: "?head = head" if "move \<noteq> ''L'' \<and> move \<noteq> ''R''"
    using that by simp
  have left: "?head = head - 1 \<longleftrightarrow> move = ''L''"
    and right: "?head = head + 1 \<longleftrightarrow> move = ''R''"
    by auto
  show ?thesis
    by (intro conjI impI body left right; (rule stay loop full, assumption))
qed

text \<open>
  The machine \<open>eraser\<close> on the tape \<^verbatim>\<open>1\<close>: its first transition has the direction
  \<^verbatim>\<open>'X'\<close> and its second the empty string, so that the head stays at position 0, the
  cell erased by the first is written again by the second, and the run ends with the
  head at 0.
\<close>

theorem direction_moves_head_witness:
  "Mapping.lookup (transitions eraser)
     (''a'' @ '':'' @ Mapping.lookup_default (blank eraser) (parse_tape ''1'' ''B'') 0)
     = Some [''b'', ''B'', ''X''] \<and>
   loop_body eraser False (parse_tape ''1'' ''B'') 0 ''a'' 0
     = Inr (Some ([], Mapping.delete 0 (parse_tape ''1'' ''B''), 0, ''b'', 1)) \<and>
   run_full eraser (parse_tape ''1'' ''B'') 10 False
     = Inr ([], NormalHalt, Mapping.update 0 ''1'' Mapping.empty, 0, ''h'', 2)"
proof -
  have h: "Mapping.lookup (transitions eraser)
     (''a'' @ '':'' @ Mapping.lookup_default (blank eraser) (parse_tape ''1'' ''B'') 0)
     = Some [''b'', ''B'', ''X'']"
    by code_simp
  have b: "blank eraser = ''B''" and s: "start eraser = ''a''" and q: "halt eraser = ''h''"
    by (simp_all add: eraser_def)
  have rest: "run_loop eraser 10 False (Mapping.delete 0 (parse_tape ''1'' ''B'')) 0 ''b'' 1
     = Inr ([], NormalHalt, Mapping.update 0 ''1'' Mapping.empty, 0, ''h'', 2)"
    by code_simp
  note t = direction_moves_head[OF h, where trace = False and steps = 0 and max_steps = 10]
  from t have c2: "loop_body eraser False (parse_tape ''1'' ''B'') 0 ''a'' 0
     = Inr (Some ([], Mapping.delete 0 (parse_tape ''1'' ''B''), 0, ''b'', 1))"
    by (simp add: b)
  from t have c3: "run_full eraser (parse_tape ''1'' ''B'') 10 False
     = Inr ([], NormalHalt, Mapping.update 0 ''1'' Mapping.empty, 0, ''h'', 2)"
    by (simp add: b s q rest)
  from h c2 c3 show ?thesis
    by (intro conjI)
qed

text \<open>
  Claim C10. For a blank symbol that is the single character \<open>c\<close> (the only kind a
  character of the input can equal), rendering the tape built from \<open>s\<close> gives \<open>s\<close> with
  its leading and trailing occurrences of \<open>c\<close> removed, the occurrences in between being
  kept; a string of blanks only renders to the empty string. This holds whether or not
  \<open>c\<close> occurs in \<open>s\<close>.
\<close>

theorem parse_render_strips_blanks:
  "tape_to_string (parse_tape s [c]) [c] = strip_blank c s \<and>
   (set s \<subseteq> {c} \<longrightarrow> tape_to_string (parse_tape s [c]) [c] = [])"
proof -
  have eq: "tape_to_string (parse_tape s [c]) [c] = strip_blank c s"
    by (simp add: tape_to_string_parse_tape strip_blank_def)
  moreover have "strip_blank c s = []" if "set s \<subseteq> {c}"
    using that by (auto simp: strip_blank_def dest: set_dropWhileD)
  ultimately show ?thesis by simp
qed

text \<open>
  A string with blanks at both ends and in the middle, and a string of blanks.
\<close>

theorem parse_render_strips_blanks_witness:
  "CHR ''B'' \<in> set ''B1B1BB'' \<and>
   tape_to_string (parse_tape ''B1B1BB'' ''B'') ''B'' = ''1B1'' \<and>
   strip_blank CHR ''B'' ''B1B1BB'' = ''1B1'' \<and>
   tape_to_string (parse_tape ''BBB'' ''B'') ''B'' = []"
proof -
  have m: "CHR ''B'' \<in> set ''B1B1BB''" by simp
  have st: "strip_blank CHR ''B'' ''B1B1BB'' = ''1B1''" by (simp add: strip_blank_def)
  have al: "set ''BBB'' \<subseteq> {CHR ''B''}" by simp
  from parse_render_strips_blanks[of "''B1B1BB''" "CHR ''B''"] st
  have a: "tape_to_string (parse_tape ''B1B1BB'' ''B'') ''B'' = ''1B1''"
    by simp
  from parse_render_strips_blanks[of "''BBB''" "CHR ''B''"] al
  have b: "tape_to_string (parse_tape ''BBB'' ''B'') ''B'' = []"
    by blast
  from m a st b show ?thesis
    by (intro conjI)
qed

end
